theory Spec2Isabelle
  imports Complex_Main "HOL-Library.Sublist"
begin

section \<open>Triangle vertex inference from line segments (triangle\_detector.py)\<close>

text \<open>
  The embedding follows \<^verbatim>\<open>src/src/triangle_detector.py\<close>. A line segment is the
  4-tuple \<^verbatim>\<open>(x1, y1, x2, y2)\<close> of numeric coordinates; the floating-point arithmetic of
  the source (\<^verbatim>\<open>np.sqrt\<close>, \<^verbatim>\<open>np.arctan2\<close>, true division) is read over the reals, and
  integer coordinates are the reals that happen to be whole. Vertices are pairs of
  integers, as produced by \<^verbatim>\<open>int(...)\<close>. The \<^verbatim>\<open>print\<close> calls only log and are left out.
\<close>

subsection \<open>Data and numeric helpers\<close>

type_synonym line = "real \<times> real \<times> real \<times> real"
type_synonym point = "int \<times> int"

datatype py_error = ValueError | ZeroDivisionError

text \<open>Python's \<^verbatim>\<open>int(r)\<close> on a float truncates towards zero.\<close>

definition py_int :: "real \<Rightarrow> int" where
  "py_int r = (if 0 \<le> r then \<lfloor>r\<rfloor> else \<lceil>r\<rceil>)"

text \<open>\<^verbatim>\<open>np.arctan2(y, x)\<close>: the angle of the vector \<open>(x, y)\<close> in \<open>(-pi, pi]\<close>.\<close>

definition arctan2 :: "real \<Rightarrow> real \<Rightarrow> real" where
  "arctan2 y x =
     (if 0 < x then arctan (y / x)
      else if x < 0 then (if 0 \<le> y then arctan (y / x) + pi else arctan (y / x) - pi)
      else if 0 < y then pi / 2
      else if y < 0 then - (pi / 2)
      else 0)"

text \<open>\<^verbatim>\<open>np.degrees(r)\<close>.\<close>

definition degrees :: "real \<Rightarrow> real" where
  "degrees r = r * 180 / pi"

text \<open>Python's \<^verbatim>\<open>a % m\<close> on floats, for a positive modulus: the result has the sign of \<open>m\<close>.\<close>

definition py_fmod :: "real \<Rightarrow> real \<Rightarrow> real" where
  "py_fmod a m = a - m * of_int \<lfloor>a / m\<rfloor>"

subsection \<open>get\_line\_length, get\_line\_angle\<close>

definition get_line_length :: "line \<Rightarrow> real" where
  "get_line_length line =
     (case line of (x1, y1, x2, y2) \<Rightarrow> sqrt ((x2 - x1) ^ 2 + (y2 - y1) ^ 2))"

definition get_line_angle :: "line \<Rightarrow> real" where
  "get_line_angle line =
     (case line of (x1, y1, x2, y2) \<Rightarrow>
        (let angle = degrees (arctan2 (y2 - y1) (x2 - x1)) in py_fmod angle 180))"

text \<open>
  \<^verbatim>\<open>sorted(lines, key=get_line_length, reverse=True)\<close>: a stable sort, longest first;
  with \<^verbatim>\<open>reverse=True\<close> segments of equal length keep their input order.
\<close>

definition sorted_longest_first :: "line list \<Rightarrow> line list" where
  "sorted_longest_first lines = sort_key (\<lambda>line. - get_line_length line) lines"

text \<open>
  \<^verbatim>\<open>max(group, key=f)\<close>: the first element whose key is greatest (a later element
  replaces the best one only when its key is strictly greater); \<^verbatim>\<open>ValueError\<close> on an
  empty list.
\<close>

fun max_from :: "('a \<Rightarrow> real) \<Rightarrow> 'a \<Rightarrow> 'a list \<Rightarrow> 'a" where
  "max_from key best [] = best"
| "max_from key best (x # xs) =
     (if key x > key best then max_from key x xs else max_from key best xs)"

definition py_max :: "('a \<Rightarrow> real) \<Rightarrow> 'a list \<Rightarrow> py_error + 'a" where
  "py_max key xs = (case xs of [] \<Rightarrow> Inl ValueError | x # rest \<Rightarrow> Inr (max_from key x rest))"

subsection \<open>merge\_similar\_lines\<close>

text \<open>The expression \<^verbatim>\<open>min(abs(angle - other_angle), 180 - abs(angle - other_angle))\<close>.\<close>

definition angle_diff :: "real \<Rightarrow> real \<Rightarrow> real" where
  "angle_diff angle other_angle =
     min \<bar>angle - other_angle\<bar> (180 - \<bar>angle - other_angle\<bar>)"

text \<open>
  The inner loop \<^verbatim>\<open>for j, other in enumerate(sorted_lines[i+1:], i+1)\<close>: the first list
  argument is what is left of \<^verbatim>\<open>sorted_lines[i+1:]\<close>, \<open>j\<close> the index of its head in
  \<^verbatim>\<open>sorted_lines\<close>. It returns the group and the updated \<^verbatim>\<open>used\<close> flags.
\<close>

fun scan_similar ::
  "real \<Rightarrow> real \<Rightarrow> line list \<Rightarrow> nat \<Rightarrow> bool list \<Rightarrow> line list \<Rightarrow> line list \<times> bool list" where
  "scan_similar angle_thresh angle [] j used grp = (grp, used)"
| "scan_similar angle_thresh angle (other # rest) j used grp =
     (if used ! j then scan_similar angle_thresh angle rest (Suc j) used grp
      else if angle_diff angle (get_line_angle other) < angle_thresh
        then scan_similar angle_thresh angle rest (Suc j) (used[j := True]) (grp @ [other])
        else scan_similar angle_thresh angle rest (Suc j) used grp)"

text \<open>
  The outer loop \<^verbatim>\<open>for i, line in enumerate(sorted_lines)\<close>: the list argument is
  \<^verbatim>\<open>sorted_lines[i:]\<close>, so its tail is the \<^verbatim>\<open>sorted_lines[i+1:]\<close> of the inner loop.
\<close>

fun merge_loop ::
  "real \<Rightarrow> line list \<Rightarrow> nat \<Rightarrow> bool list \<Rightarrow> line list \<Rightarrow> py_error + line list" where
  "merge_loop angle_thresh [] i used merged = Inr merged"
| "merge_loop angle_thresh (line # rest) i used merged =
     (if used ! i then merge_loop angle_thresh rest (Suc i) used merged
      else
        (case scan_similar angle_thresh (get_line_angle line) rest (Suc i) (used[i := True]) [line] of
           (grp, used') \<Rightarrow>
             (case py_max get_line_length grp of
                Inl e \<Rightarrow> Inl e
              | Inr longest \<Rightarrow> merge_loop angle_thresh rest (Suc i) used' (merged @ [longest]))))"

definition merge_similar_lines :: "line list \<Rightarrow> real \<Rightarrow> py_error + line list" where
  "merge_similar_lines lines angle_thresh =
     (if lines = [] then Inr []
      else
        (let sorted_lines = sorted_longest_first lines
         in merge_loop angle_thresh sorted_lines 0 (replicate (length sorted_lines) False) []))"

text \<open>
  The same two loops, recording every \<^verbatim>\<open>group\<close> instead of its longest member: the
  clusters that \<^verbatim>\<open>merge_similar_lines\<close> forms, in the order they are opened.
\<close>

fun cluster_loop ::
  "real \<Rightarrow> line list \<Rightarrow> nat \<Rightarrow> bool list \<Rightarrow> line list list \<Rightarrow> line list list" where
  "cluster_loop angle_thresh [] i used groups = groups"
| "cluster_loop angle_thresh (line # rest) i used groups =
     (if used ! i then cluster_loop angle_thresh rest (Suc i) used groups
      else
        (case scan_similar angle_thresh (get_line_angle line) rest (Suc i) (used[i := True]) [line] of
           (grp, used') \<Rightarrow> cluster_loop angle_thresh rest (Suc i) used' (groups @ [grp])))"

definition line_clusters :: "line list \<Rightarrow> real \<Rightarrow> line list list" where
  "line_clusters lines angle_thresh =
     (if lines = [] then []
      else
        (let sorted_lines = sorted_longest_first lines
         in cluster_loop angle_thresh sorted_lines 0 (replicate (length sorted_lines) False) []))"

subsection \<open>find\_line\_intersection\<close>

definition find_line_intersection :: "line \<Rightarrow> line \<Rightarrow> point option" where
  "find_line_intersection line1 line2 =
     (case line1 of (x1, y1, x2, y2) \<Rightarrow>
      case line2 of (x3, y3, x4, y4) \<Rightarrow>
        (let denom = (x1 - x2) * (y3 - y4) - (y1 - y2) * (x3 - x4) in
         if \<bar>denom\<bar> < 1 / 10 ^ 10 then None
         else
           (let t = ((x1 - x3) * (y3 - y4) - (y1 - y3) * (x3 - x4)) / denom
            in Some (py_int (x1 + t * (x2 - x1)), py_int (y1 + t * (y2 - y1))))))"

subsection \<open>find\_triangle\_vertices\<close>

text \<open>Step 1, the test \<^verbatim>\<open>near_border\<close> and the loop that keeps the other segments.\<close>

definition near_border :: "int \<Rightarrow> int \<Rightarrow> int \<Rightarrow> line \<Rightarrow> bool" where
  "near_border border_margin height width line =
     (case line of (x1, y1, x2, y2) \<Rightarrow>
        (x1 < real_of_int border_margin \<or> x1 > real_of_int (width - border_margin) \<or>
         y1 < real_of_int border_margin \<or> y1 > real_of_int (height - border_margin)) \<and>
        (x2 < real_of_int border_margin \<or> x2 > real_of_int (width - border_margin) \<or>
         y2 < real_of_int border_margin \<or> y2 > real_of_int (height - border_margin)))"

definition filter_border_lines :: "int \<Rightarrow> int \<Rightarrow> int \<Rightarrow> line list \<Rightarrow> line list" where
  "filter_border_lines border_margin height width lines =
     filter (\<lambda>line. \<not> near_border border_margin height width line) lines"

text \<open>
  Step 3, the centroid of the endpoints of \<^verbatim>\<open>merged_lines[:6]\<close>; the division raises
  when there is no point.
\<close>

fun end_points :: "line list \<Rightarrow> (real \<times> real) list" where
  "end_points [] = []"
| "end_points ((x1, y1, x2, y2) # rest) = (x1, y1) # (x2, y2) # end_points rest"

definition line_centroid :: "line list \<Rightarrow> py_error + (real \<times> real)" where
  "line_centroid merged_lines =
     (let all_points = end_points (take 6 merged_lines) in
      if length all_points = 0 then Inl ZeroDivisionError
      else Inr (sum_list (map fst all_points) / real (length all_points),
                sum_list (map snd all_points) / real (length all_points)))"

text \<open>\<^verbatim>\<open>itertools.combinations(xs, 2)\<close>: the pairs of positions \<open>i < j\<close>, in lexicographic order.\<close>

fun combinations2 :: "'a list \<Rightarrow> ('a \<times> 'a) list" where
  "combinations2 [] = []"
| "combinations2 (x # xs) = map (Pair x) xs @ combinations2 xs"

text \<open>
  Step 4, the loop over the pairs, collecting \<^verbatim>\<open>(intersection, dist_to_center)\<close>, the
  distance in exact arithmetic.
\<close>

fun collect_vertices ::
  "int \<Rightarrow> int \<Rightarrow> int \<Rightarrow> real \<times> real \<Rightarrow> (line \<times> line) list \<Rightarrow> (point \<times> real) list" where
  "collect_vertices margin height width centroid [] = []"
| "collect_vertices margin height width centroid ((line1, line2) # pairs) =
     (case find_line_intersection line1 line2 of
        None \<Rightarrow> collect_vertices margin height width centroid pairs
      | Some (x, y) \<Rightarrow>
          if margin \<le> x \<and> x \<le> width - margin \<and> margin \<le> y \<and> y \<le> height - margin
          then ((x, y), sqrt ((real_of_int x - fst centroid) ^ 2 + (real_of_int y - snd centroid) ^ 2))
                 # collect_vertices margin height width centroid pairs
          else collect_vertices margin height width centroid pairs)"

text \<open>Step 5, the test \<^verbatim>\<open>is_dup\<close> and the loop building \<^verbatim>\<open>unique\<close>.\<close>

definition is_dup :: "int \<Rightarrow> point \<Rightarrow> point list \<Rightarrow> bool" where
  "is_dup tolerance v unique =
     list_ex (\<lambda>u. \<bar>fst v - fst u\<bar> < tolerance \<and> \<bar>snd v - snd u\<bar> < tolerance) unique"

fun remove_duplicates :: "int \<Rightarrow> (point \<times> real) list \<Rightarrow> point list \<Rightarrow> point list" where
  "remove_duplicates tolerance [] unique = unique"
| "remove_duplicates tolerance ((v, d) # vertices) unique =
     (if \<not> is_dup tolerance v unique
      then remove_duplicates tolerance vertices (unique @ [v])
      else remove_duplicates tolerance vertices unique)"

text \<open>\<^verbatim>\<open>vertices.sort(key=lambda v: v[1])\<close>: a stable sort, closest to the centroid first.\<close>

definition sort_by_distance :: "(point \<times> real) list \<Rightarrow> (point \<times> real) list" where
  "sort_by_distance vertices = sort_key snd vertices"

definition find_triangle_vertices :: "line list \<Rightarrow> int \<times> int \<Rightarrow> py_error + point list" where
  "find_triangle_vertices lines img_shape =
     (case img_shape of (height, width) \<Rightarrow>
        (let border_margin = py_int (real_of_int (min height width) * (5 / 100));
             filtered_lines = filter_border_lines border_margin height width lines;
             sorted_lines = sorted_longest_first filtered_lines
         in case merge_similar_lines (take 50 sorted_lines) 15 of
              Inl e \<Rightarrow> Inl e
            | Inr merged_lines \<Rightarrow>
                if length merged_lines < 3 then Inr []
                else
                  (case line_centroid merged_lines of
                     Inl e \<Rightarrow> Inl e
                   | Inr centroid \<Rightarrow>
                       (let margin = border_margin * 2;
                            vertices = sort_by_distance
                              (collect_vertices margin height width centroid
                                 (combinations2 (take 10 merged_lines)));
                            tolerance = py_int (real_of_int (min height width) * (3 / 100));
                            unique = remove_duplicates tolerance vertices []
                        in Inr (take 3 unique)))))"

text \<open>
  Steps 1 and 2 on their own: the value of \<^verbatim>\<open>merged_lines\<close> that
  \<^verbatim>\<open>find_triangle_vertices\<close> tests against 3.
\<close>

definition merged_lines_of :: "line list \<Rightarrow> int \<times> int \<Rightarrow> py_error + line list" where
  "merged_lines_of lines img_shape =
     (case img_shape of (height, width) \<Rightarrow>
        (let border_margin = py_int (real_of_int (min height width) * (5 / 100));
             filtered_lines = filter_border_lines border_margin height width lines;
             sorted_lines = sorted_longest_first filtered_lines
         in merge_similar_lines (take 50 sorted_lines) 15))"

text \<open>
  The source computes \<^verbatim>\<open>dist_to_center\<close> in floating point, and the sort of step 5
  compares the computed values. For statements about the ranking the pipeline is
  therefore written once more with the distance computation as a parameter:
  \<open>distance centroid v\<close> stands for the value computed for the vertex \<open>v\<close>.
  With \<open>exact_distance\<close>, the expression of line 139 in exact arithmetic, it is
  \<^verbatim>\<open>find_triangle_vertices\<close> as defined above.
\<close>

definition exact_distance :: "real \<times> real \<Rightarrow> point \<Rightarrow> real" where
  "exact_distance centroid v =
     sqrt ((real_of_int (fst v) - fst centroid) ^ 2 + (real_of_int (snd v) - snd centroid) ^ 2)"

fun collect_vertices_by ::
  "(real \<times> real \<Rightarrow> point \<Rightarrow> real) \<Rightarrow> int \<Rightarrow> int \<Rightarrow> int \<Rightarrow> real \<times> real
     \<Rightarrow> (line \<times> line) list \<Rightarrow> (point \<times> real) list" where
  "collect_vertices_by distance margin height width centroid [] = []"
| "collect_vertices_by distance margin height width centroid ((line1, line2) # pairs) =
     (case find_line_intersection line1 line2 of
        None \<Rightarrow> collect_vertices_by distance margin height width centroid pairs
      | Some (x, y) \<Rightarrow>
          if margin \<le> x \<and> x \<le> width - margin \<and> margin \<le> y \<and> y \<le> height - margin
          then ((x, y), distance centroid (x, y))
                 # collect_vertices_by distance margin height width centroid pairs
          else collect_vertices_by distance margin height width centroid pairs)"

definition find_triangle_vertices_by ::
  "(real \<times> real \<Rightarrow> point \<Rightarrow> real) \<Rightarrow> line list \<Rightarrow> int \<times> int \<Rightarrow> py_error + point list" where
  "find_triangle_vertices_by distance lines img_shape =
     (case img_shape of (height, width) \<Rightarrow>
        (let border_margin = py_int (real_of_int (min height width) * (5 / 100));
             filtered_lines = filter_border_lines border_margin height width lines;
             sorted_lines = sorted_longest_first filtered_lines
         in case merge_similar_lines (take 50 sorted_lines) 15 of
              Inl e \<Rightarrow> Inl e
            | Inr merged_lines \<Rightarrow>
                if length merged_lines < 3 then Inr []
                else
                  (case line_centroid merged_lines of
                     Inl e \<Rightarrow> Inl e
                   | Inr centroid \<Rightarrow>
                       (let margin = border_margin * 2;
                            vertices = sort_by_distance
                              (collect_vertices_by distance margin height width centroid
                                 (combinations2 (take 10 merged_lines)));
                            tolerance = py_int (real_of_int (min height width) * (3 / 100));
                            unique = remove_duplicates tolerance vertices []
                        in Inr (take 3 unique)))))"

text \<open>
  The value of \<^verbatim>\<open>vertices\<close> after the loop of step 4 and before the sort: the candidates
  in the order their pairs are enumerated (none when the function returns early).
\<close>

definition candidate_vertices_by ::
  "(real \<times> real \<Rightarrow> point \<Rightarrow> real) \<Rightarrow> line list \<Rightarrow> int \<times> int \<Rightarrow> (point \<times> real) list" where
  "candidate_vertices_by distance lines img_shape =
     (case img_shape of (height, width) \<Rightarrow>
        (let border_margin = py_int (real_of_int (min height width) * (5 / 100));
             filtered_lines = filter_border_lines border_margin height width lines;
             sorted_lines = sorted_longest_first filtered_lines
         in case merge_similar_lines (take 50 sorted_lines) 15 of
              Inl e \<Rightarrow> []
            | Inr merged_lines \<Rightarrow>
                if length merged_lines < 3 then []
                else
                  (case line_centroid merged_lines of
                     Inl e \<Rightarrow> []
                   | Inr centroid \<Rightarrow>
                       collect_vertices_by distance (border_margin * 2) height width centroid
                         (combinations2 (take 10 merged_lines)))))"

subsection \<open>Notions used in the proofs\<close>

text \<open>The test of the inner loop: \<open>other\<close> joins the cluster whose seed has angle \<open>angle\<close>.\<close>

definition similar :: "real \<Rightarrow> real \<Rightarrow> line \<Rightarrow> bool" where
  "similar angle_thresh angle other = (angle_diff angle (get_line_angle other) < angle_thresh)"

text \<open>The segments of \<^verbatim>\<open>sorted_lines[j:]\<close> whose \<^verbatim>\<open>used\<close> flag is not set.\<close>

fun unconsumed :: "line list \<Rightarrow> nat \<Rightarrow> bool list \<Rightarrow> line list" where
  "unconsumed [] j used = []"
| "unconsumed (x # xs) j used =
     (if used ! j then unconsumed xs (Suc j) used else x # unconsumed xs (Suc j) used)"

text \<open>
  First-fit clustering written without flags: the head opens a cluster and takes every
  later segment similar to it; the others are clustered in turn.
\<close>

fun greedy_groups :: "real \<Rightarrow> line list \<Rightarrow> line list list" where
  "greedy_groups t [] = []"
| "greedy_groups t (x # xs) =
     (x # filter (similar t (get_line_angle x)) xs)
       # greedy_groups t (filter (\<lambda>other. \<not> similar t (get_line_angle x) other) xs)"

text \<open>Two vertices that the test in \<^verbatim>\<open>is_dup\<close> does not identify.\<close>

definition apart :: "int \<Rightarrow> point \<Rightarrow> point \<Rightarrow> bool" where
  "apart tolerance v u = (\<not> (\<bar>fst v - fst u\<bar> < tolerance \<and> \<bar>snd v - snd u\<bar> < tolerance))"

section \<open>The merge loop\<close>

lemma unconsumed_cong:
  "(\<And>k. j \<le> k \<Longrightarrow> k < j + length xs \<Longrightarrow> u1 ! k = u2 ! k) \<Longrightarrow>
   unconsumed xs j u1 = unconsumed xs j u2"
proof (induction xs arbitrary: j)
  case Nil
  then show ?case by simp
next
  case (Cons x xs)
  have "u1 ! j = u2 ! j" using Cons.prems[of j] by simp
  moreover have "unconsumed xs (Suc j) u1 = unconsumed xs (Suc j) u2"
    by (rule Cons.IH) (use Cons.prems in simp)
  ultimately show ?case by simp
qed

lemma unconsumed_update:
  "unconsumed xs (Suc j) (used[j := b]) = unconsumed xs (Suc j) used"
  by (rule unconsumed_cong) simp

lemma set_unconsumed: "set (unconsumed xs j used) \<subseteq> set xs"
  by (induction xs arbitrary: j) auto

lemma unconsumed_fresh:
  "j + length xs \<le> n \<Longrightarrow> unconsumed xs j (replicate n False) = xs"
  by (induction xs arbitrary: j) auto

lemma scan_similar_length:
  "length (snd (scan_similar t a xs j used g)) = length used"
  by (induction xs arbitrary: j used g) auto

lemma scan_similar_below:
  "k < j \<Longrightarrow> snd (scan_similar t a xs j used g) ! k = used ! k"
  by (induction xs arbitrary: j used g) auto

lemma scan_similar_fst:
  "fst (scan_similar t a xs j used g) = g @ filter (similar t a) (unconsumed xs j used)"
  by (induction xs arbitrary: j used g) (auto simp: similar_def unconsumed_update)

lemma scan_similar_snd:
  "j + length xs \<le> length used \<Longrightarrow>
   unconsumed xs j (snd (scan_similar t a xs j used g))
     = filter (\<lambda>other. \<not> similar t a other) (unconsumed xs j used)"
proof (induction xs arbitrary: j used g)
  case Nil
  then show ?case by simp
next
  case (Cons x xs)
  show ?case
  proof (cases "used ! j")
    case True
    then show ?thesis
      using Cons.IH[of "Suc j" used g] Cons.prems
      by (simp add: scan_similar_below)
  next
    case False
    show ?thesis
    proof (cases "similar t a x")
      case True
      have "unconsumed xs (Suc j) (snd (scan_similar t a xs (Suc j) (used[j := True]) (g @ [x])))
             = filter (\<lambda>other. \<not> similar t a other) (unconsumed xs (Suc j) (used[j := True]))"
        by (rule Cons.IH) (use Cons.prems in simp)
      then show ?thesis
        using \<open>\<not> used ! j\<close> True Cons.prems
        by (simp add: scan_similar_below unconsumed_update similar_def)
    next
      case nsim: False
      then show ?thesis
        using \<open>\<not> used ! j\<close> Cons.IH[of "Suc j" used g] Cons.prems
        by (simp add: scan_similar_below similar_def)
    qed
  qed
qed

lemma cluster_loop_greedy:
  "i + length xs \<le> length used \<Longrightarrow>
   cluster_loop t xs i used groups = groups @ greedy_groups t (unconsumed xs i used)"
proof (induction xs arbitrary: i used groups)
  case Nil
  then show ?case by simp
next
  case (Cons x xs)
  show ?case
  proof (cases "used ! i")
    case True
    then show ?thesis using Cons.IH[of "Suc i" used groups] Cons.prems by simp
  next
    case False
    obtain g u where sc:
      "scan_similar t (get_line_angle x) xs (Suc i) (used[i := True]) [x] = (g, u)"
      by (cases "scan_similar t (get_line_angle x) xs (Suc i) (used[i := True]) [x]")
    have g: "g = x # filter (similar t (get_line_angle x)) (unconsumed xs (Suc i) used)"
      using scan_similar_fst[of t "get_line_angle x" xs "Suc i" "used[i := True]" "[x]"] sc
      by (simp add: unconsumed_update)
    have len: "length u = length used"
      using scan_similar_length[of t "get_line_angle x" xs "Suc i" "used[i := True]" "[x]"] sc
      by simp
    have u: "unconsumed xs (Suc i) u
             = filter (\<lambda>other. \<not> similar t (get_line_angle x) other) (unconsumed xs (Suc i) used)"
      using scan_similar_snd[of "Suc i" xs "used[i := True]" t "get_line_angle x" "[x]"] sc Cons.prems
      by (simp add: unconsumed_update)
    have "cluster_loop t xs (Suc i) u (groups @ [g])
            = (groups @ [g]) @ greedy_groups t (unconsumed xs (Suc i) u)"
      by (rule Cons.IH) (use Cons.prems len in simp)
    then show ?thesis using False sc g u by simp
  qed
qed

lemma max_from_first: "\<forall>y \<in> set ys. key y \<le> key x \<Longrightarrow> max_from key x ys = x"
  by (induction ys) auto

lemma merge_loop_greedy:
  "sorted_wrt (\<lambda>a b. get_line_length b \<le> get_line_length a) xs \<Longrightarrow>
   i + length xs \<le> length used \<Longrightarrow>
   merge_loop t xs i used merged = Inr (merged @ map hd (greedy_groups t (unconsumed xs i used)))"
proof (induction xs arbitrary: i used merged)
  case Nil
  then show ?case by simp
next
  case (Cons x xs)
  have sorted_tl: "sorted_wrt (\<lambda>a b. get_line_length b \<le> get_line_length a) xs"
    and le_hd: "\<And>y. y \<in> set xs \<Longrightarrow> get_line_length y \<le> get_line_length x"
    using Cons.prems(1) by auto
  show ?case
  proof (cases "used ! i")
    case True
    then show ?thesis using Cons.IH[OF sorted_tl, of "Suc i" used merged] Cons.prems by simp
  next
    case False
    obtain g u where sc:
      "scan_similar t (get_line_angle x) xs (Suc i) (used[i := True]) [x] = (g, u)"
      by (cases "scan_similar t (get_line_angle x) xs (Suc i) (used[i := True]) [x]")
    have g: "g = x # filter (similar t (get_line_angle x)) (unconsumed xs (Suc i) used)"
      using scan_similar_fst[of t "get_line_angle x" xs "Suc i" "used[i := True]" "[x]"] sc
      by (simp add: unconsumed_update)
    have len: "length u = length used"
      using scan_similar_length[of t "get_line_angle x" xs "Suc i" "used[i := True]" "[x]"] sc
      by simp
    have u: "unconsumed xs (Suc i) u
             = filter (\<lambda>other. \<not> similar t (get_line_angle x) other) (unconsumed xs (Suc i) used)"
      using scan_similar_snd[of "Suc i" xs "used[i := True]" t "get_line_angle x" "[x]"] sc Cons.prems
      by (simp add: unconsumed_update)
    have "max_from get_line_length x (filter (similar t (get_line_angle x)) (unconsumed xs (Suc i) used)) = x"
    proof (rule max_from_first, rule ballI)
      fix y
      assume "y \<in> set (filter (similar t (get_line_angle x)) (unconsumed xs (Suc i) used))"
      then have "y \<in> set xs" using set_unconsumed[of xs "Suc i" used] by auto
      then show "get_line_length y \<le> get_line_length x" by (rule le_hd)
    qed
    then have mx: "py_max get_line_length g = Inr x"
      by (simp add: py_max_def g)
    have "merge_loop t xs (Suc i) u (merged @ [x])
            = Inr ((merged @ [x]) @ map hd (greedy_groups t (unconsumed xs (Suc i) u)))"
      by (rule Cons.IH[OF sorted_tl]) (use Cons.prems len in simp)
    then show ?thesis using False sc mx u by simp
  qed
qed

lemma sorted_longest_first_sorted:
  "sorted_wrt (\<lambda>a b. get_line_length b \<le> get_line_length a) (sorted_longest_first lines)"
proof -
  have "sorted (map (\<lambda>line. - get_line_length line) (sorted_longest_first lines))"
    unfolding sorted_longest_first_def by (rule sorted_sort_key)
  then show ?thesis by (simp add: sorted_map)
qed

lemma line_clusters_greedy:
  "line_clusters lines t = greedy_groups t (sorted_longest_first lines)"
  by (simp add: line_clusters_def Let_def cluster_loop_greedy unconsumed_fresh sorted_longest_first_def)

lemma merge_similar_lines_greedy:
  "merge_similar_lines lines t = Inr (map hd (greedy_groups t (sorted_longest_first lines)))"
proof (cases "lines = []")
  case True
  then show ?thesis by (simp add: merge_similar_lines_def sorted_longest_first_def)
next
  case False
  then show ?thesis
    using merge_loop_greedy[OF sorted_longest_first_sorted, of 0 lines
        "replicate (length (sorted_longest_first lines)) False" t "[]"]
    by (simp add: merge_similar_lines_def Let_def unconsumed_fresh)
qed

lemma length_greedy_groups: "length (greedy_groups t xs) \<le> length xs"
proof (induction t xs rule: greedy_groups.induct)
  case (1 t)
  then show ?case by simp
next
  case (2 t x xs)
  have "length (greedy_groups t (filter (\<lambda>other. \<not> similar t (get_line_angle x) other) xs))
          \<le> length xs"
    by (rule order_trans[OF 2 length_filter_le])
  then show ?case by simp
qed

lemma greedy_groups_member:
  "g \<in> set (greedy_groups t xs) \<Longrightarrow>
   g \<noteq> [] \<and> set g \<subseteq> set xs \<and> (\<forall>m \<in> set (tl g). similar t (get_line_angle (hd g)) m)"
proof (induction t xs rule: greedy_groups.induct)
  case (1 t)
  then show ?case by simp
next
  case (2 t x xs)
  then show ?case by auto
qed

lemma greedy_groups_seeds_apart:
  "sorted_wrt (\<lambda>a b. \<not> similar t (get_line_angle a) b) (map hd (greedy_groups t xs))"
proof (induction t xs rule: greedy_groups.induct)
  case (1 t)
  then show ?case by simp
next
  case (2 t x xs)
  have "\<not> similar t (get_line_angle x) (hd g)"
    if "g \<in> set (greedy_groups t (filter (\<lambda>other. \<not> similar t (get_line_angle x) other) xs))" for g
  proof -
    from greedy_groups_member[OF that] have "hd g \<in> set (filter (\<lambda>other. \<not> similar t (get_line_angle x) other) xs)"
      by (cases g) auto
    then show ?thesis by simp
  qed
  with 2 show ?case by auto
qed

lemma length_merge: "merge_similar_lines lines t = Inr merged \<Longrightarrow> length merged \<le> length lines"
  using length_greedy_groups[of t "sorted_longest_first lines"]
  by (auto simp: merge_similar_lines_greedy sorted_longest_first_def)

lemma angle_diff_sym: "angle_diff a b = angle_diff b a"
  by (simp add: angle_diff_def abs_minus_commute)

section \<open>The pipeline of find\_triangle\_vertices\<close>

lemma apart_sym: "apart tol v u = apart tol u v"
  by (simp add: apart_def abs_minus_commute)

lemma is_dup_iff: "is_dup tol v unique \<longleftrightarrow> (\<exists>u \<in> set unique. \<not> apart tol v u)"
  by (simp add: is_dup_def apart_def list_ex_iff)

lemma remove_duplicates_apart:
  "sorted_wrt (apart tol) unique \<Longrightarrow> sorted_wrt (apart tol) (remove_duplicates tol vertices unique)"
proof (induction vertices arbitrary: unique)
  case Nil
  then show ?case by simp
next
  case (Cons a vertices)
  obtain v d where a: "a = (v, d)" by (cases a)
  show ?case
  proof (cases "is_dup tol v unique")
    case True
    then show ?thesis using Cons a by simp
  next
    case False
    then have "\<forall>u \<in> set unique. apart tol u v"
      using apart_sym[of tol v] by (simp add: is_dup_iff)
    then have "sorted_wrt (apart tol) (unique @ [v])"
      using Cons.prems by (simp add: sorted_wrt_append)
    then show ?thesis using Cons.IH False a by simp
  qed
qed

lemma apart_mono: "tol' \<le> tol \<Longrightarrow> apart tol v u \<Longrightarrow> apart tol' v u"
  by (auto simp: apart_def)

lemma sorted_wrt_apart_nth:
  assumes "sorted_wrt (apart tol) vs" "i < length vs" "j < length vs" "i \<noteq> j"
  shows "apart tol (vs ! i) (vs ! j)"
proof (cases "i < j")
  case True
  then show ?thesis using assms by (simp add: sorted_wrt_iff_nth_less)
next
  case False
  then have "j < i" using assms(4) by simp
  then have "apart tol (vs ! j) (vs ! i)" using assms by (simp add: sorted_wrt_iff_nth_less)
  then show ?thesis by (simp add: apart_sym)
qed

lemma length_end_points: "length (end_points ls) = 2 * length ls"
  by (induction ls rule: end_points.induct) auto

lemma line_centroid_total:
  "merged_lines \<noteq> [] \<Longrightarrow> \<exists>c. line_centroid merged_lines = Inr c"
  by (cases merged_lines) (auto simp: line_centroid_def Let_def length_end_points)

lemma merged_lines_of_total:
  "\<exists>merged. merged_lines_of lines img_shape = Inr merged"
  by (cases img_shape) (simp add: merged_lines_of_def Let_def merge_similar_lines_greedy)

lemma find_triangle_vertices_few:
  "merged_lines_of lines img_shape = Inr merged \<Longrightarrow> length merged < 3 \<Longrightarrow>
   find_triangle_vertices lines img_shape = Inr []"
  by (cases img_shape) (simp add: merged_lines_of_def find_triangle_vertices_def Let_def)

lemma find_triangle_vertices_shape:
  "find_triangle_vertices lines (height, width) = Inr [] \<or>
   (\<exists>vertices. find_triangle_vertices lines (height, width)
      = Inr (take 3 (remove_duplicates (py_int (real_of_int (min height width) * (3 / 100))) vertices [])))"
proof -
  obtain merged where m: "merged_lines_of lines (height, width) = Inr merged"
    using merged_lines_of_total by blast
  show ?thesis
  proof (cases "length merged < 3")
    case True
    then show ?thesis using find_triangle_vertices_few[OF m] by simp
  next
    case False
    then have "merged \<noteq> []" by auto
    then obtain c where c: "line_centroid merged = Inr c"
      using line_centroid_total by blast
    from m have m': "merge_similar_lines (take 50 (sorted_longest_first (filter_border_lines
       (py_int (real_of_int (min height width) * (5 / 100))) height width lines))) 15 = Inr merged"
      by (simp add: merged_lines_of_def Let_def)
    show ?thesis
      unfolding find_triangle_vertices_def
      using False c m' by (simp add: Let_def) blast
  qed
qed

lemma floor_le_py_int: "\<lfloor>r\<rfloor> \<le> py_int r"
  by (simp add: py_int_def floor_le_ceiling)

lemma collect_vertices_by_exact:
  "collect_vertices_by exact_distance margin height width centroid pairs
     = collect_vertices margin height width centroid pairs"
  by (induction pairs) (auto simp: exact_distance_def split: option.splits)

lemma find_triangle_vertices_by_exact:
  "find_triangle_vertices_by exact_distance lines img_shape = find_triangle_vertices lines img_shape"
  by (simp only: find_triangle_vertices_by_def find_triangle_vertices_def collect_vertices_by_exact)

lemma sort_by_distance_Nil: "sort_by_distance [] = []"
  by (simp add: sort_by_distance_def)

lemma find_triangle_vertices_by_value:
  "find_triangle_vertices_by distance lines (height, width)
     = Inr (take 3 (remove_duplicates (py_int (real_of_int (min height width) * (3 / 100)))
              (sort_by_distance (candidate_vertices_by distance lines (height, width))) []))"
proof -
  obtain merged where m: "merged_lines_of lines (height, width) = Inr merged"
    using merged_lines_of_total by blast
  then have m': "merge_similar_lines (take 50 (sorted_longest_first (filter_border_lines
       (py_int (real_of_int (min height width) * (5 / 100))) height width lines))) 15 = Inr merged"
    by (simp add: merged_lines_of_def Let_def)
  show ?thesis
  proof (cases "length merged < 3")
    case True
    then show ?thesis
      using m'
      by (simp add: find_triangle_vertices_by_def candidate_vertices_by_def Let_def
          sort_by_distance_Nil)
  next
    case False
    then have "merged \<noteq> []" by auto
    then obtain c where c: "line_centroid merged = Inr c"
      using line_centroid_total by blast
    show ?thesis
      using False c m'
      by (simp add: find_triangle_vertices_by_def candidate_vertices_by_def Let_def)
  qed
qed

lemma remove_duplicates_subseq:
  "subseq (remove_duplicates tol vertices unique) (unique @ map fst vertices)"
proof (induction vertices arbitrary: unique)
  case Nil
  then show ?case by simp
next
  case (Cons a vertices)
  obtain v d where a: "a = (v, d)" by (cases a)
  show ?case
  proof (cases "is_dup tol v unique")
    case True
    have "subseq (unique @ map fst vertices) (unique @ v # map fst vertices)"
      by (auto simp: subseq_append')
    then have "subseq (remove_duplicates tol vertices unique) (unique @ v # map fst vertices)"
      by (rule subseq_order.order_trans[OF Cons.IH[of unique]])
    then show ?thesis using True a by simp
  next
    case False
    then show ?thesis using Cons.IH[of "unique @ [v]"] a by simp
  qed
qed

lemma combinations2_index_order:
  "combinations2 xs
     = concat (map (\<lambda>i. map (\<lambda>j. (xs ! i, xs ! j)) [Suc i..<length xs]) [0..<length xs])"
proof (induction xs)
  case Nil
  then show ?case by simp
next
  case (Cons x xs)
  have "map (\<lambda>j. ((x # xs) ! 0, (x # xs) ! j)) (map Suc [0..<length xs])
      = map (Pair x) (map ((!) xs) [0..<length xs])"
    by (simp add: comp_def)
  then have hd_row:
    "map (\<lambda>j. ((x # xs) ! 0, (x # xs) ! j)) [Suc 0..<Suc (length xs)] = map (Pair x) xs"
    by (simp only: map_Suc_upt map_nth)
  have row: "map (\<lambda>j. ((x # xs) ! Suc i, (x # xs) ! j)) [Suc (Suc i)..<Suc (length xs)]
      = map (\<lambda>j. (xs ! i, xs ! j)) [Suc i..<length xs]" for i
  proof -
    have "map (\<lambda>j. ((x # xs) ! Suc i, (x # xs) ! j)) (map Suc [Suc i..<length xs])
        = map (\<lambda>j. (xs ! i, xs ! j)) [Suc i..<length xs]"
      by (simp add: comp_def)
    then show ?thesis by (simp only: map_Suc_upt)
  qed
  have "concat (map (\<lambda>i. map (\<lambda>j. ((x # xs) ! i, (x # xs) ! j)) [Suc i..<Suc (length xs)])
                 [0..<Suc (length xs)])
      = map (\<lambda>j. ((x # xs) ! 0, (x # xs) ! j)) [Suc 0..<Suc (length xs)]
        @ concat (map (\<lambda>i. map (\<lambda>j. ((x # xs) ! Suc i, (x # xs) ! j)) [Suc (Suc i)..<Suc (length xs)])
                 [0..<length xs])"
    by (simp only: map_upt_Suc concat.simps)
  also have "\<dots> = map (Pair x) xs @ combinations2 xs"
    by (simp only: hd_row row Cons.IH)
  finally show ?case by (simp only: combinations2.simps length_Cons)
qed

lemma collect_vertices_by_key:
  "v \<in> set (collect_vertices_by distance margin height width centroid pairs)
   \<Longrightarrow> snd v = distance centroid (fst v)"
  by (induction pairs) (auto split: option.splits if_splits)

lemma candidate_vertices_by_key:
  assumes "v \<in> set (candidate_vertices_by distance lines (height, width))"
  shows "\<exists>merged centroid. merged_lines_of lines (height, width) = Inr merged
           \<and> line_centroid merged = Inr centroid \<and> snd v = distance centroid (fst v)"
proof -
  obtain merged where m: "merged_lines_of lines (height, width) = Inr merged"
    using merged_lines_of_total by blast
  then have m': "merge_similar_lines (take 50 (sorted_longest_first (filter_border_lines
       (py_int (real_of_int (min height width) * (5 / 100))) height width lines))) 15 = Inr merged"
    by (simp add: merged_lines_of_def Let_def)
  have ge: "\<not> length merged < 3"
    using assms m' by (auto simp: candidate_vertices_by_def Let_def)
  then have "merged \<noteq> []" by auto
  then obtain c where c: "line_centroid merged = Inr c"
    using line_centroid_total by blast
  have "v \<in> set (collect_vertices_by distance
          (py_int (real_of_int (min height width) * (5 / 100)) * 2) height width c
          (combinations2 (take 10 merged)))"
    using assms m' ge c by (simp add: candidate_vertices_by_def Let_def)
  then have "snd v = distance c (fst v)" by (rule collect_vertices_by_key)
  then show ?thesis using m c by blast
qed

section \<open>Worked inputs\<close>

text \<open>
  Angles and lengths of the concrete segments used below. The slope \<open>1/5\<close> gives an
  angle between 11.25 and 15 degrees, by Machin's formula.
\<close>

lemma py_fmod_180_nonneg: "0 \<le> a \<Longrightarrow> a < 180 \<Longrightarrow> py_fmod a 180 = a"
proof -
  assume "0 \<le> a" "a < 180"
  then have "\<lfloor>a / 180\<rfloor> = 0" by (simp add: floor_eq_iff)
  then show ?thesis by (simp add: py_fmod_def)
qed

lemma py_fmod_180_neg: "- 180 \<le> a \<Longrightarrow> a < 0 \<Longrightarrow> py_fmod a 180 = a + 180"
proof -
  assume "- 180 \<le> a" "a < 0"
  then have "\<lfloor>a / 180\<rfloor> = - 1" by (simp add: floor_eq_iff)
  then show ?thesis by (simp add: py_fmod_def)
qed

lemma degrees_simps: "degrees 0 = 0" "degrees (pi / 2) = 90" "degrees (- (pi / 4)) = - 45"
  by (simp_all add: degrees_def)

lemma arctan_fifth_bounds: "pi / 16 < arctan (1 / 5) \<and> arctan (1 / 5) < pi / 12"
proof -
  have pos: "0 < arctan (1 / 239 :: real)" by simp
  have less: "arctan (1 / 239 :: real) < arctan (1 / 5)" by (rule arctan_monotone) simp
  from machin pos less show ?thesis by linarith
qed

lemma degrees_fifth_bounds:
  "45 / 4 < degrees (arctan (1 / 5)) \<and> degrees (arctan (1 / 5)) < 15"
proof -
  have "45 / 4 * pi < arctan (1 / 5) * 180" "arctan (1 / 5) * 180 < 15 * pi"
    using arctan_fifth_bounds by linarith+
  then show ?thesis
    by (simp add: degrees_def pos_less_divide_eq pos_divide_less_eq)
qed

lemma sqrt_cmp:
  fixes a b :: real
  assumes "0 \<le> a"
  shows "a < sqrt b \<longleftrightarrow> a\<^sup>2 < b" "a \<le> sqrt b \<longleftrightarrow> a\<^sup>2 \<le> b"
    "sqrt b < a \<longleftrightarrow> b < a\<^sup>2" "sqrt b \<le> a \<longleftrightarrow> b \<le> a\<^sup>2"
proof -
  have a: "a = sqrt (a\<^sup>2)" using assms by simp
  show "a < sqrt b \<longleftrightarrow> a\<^sup>2 < b" by (subst a) (simp only: real_sqrt_less_iff)
  show "a \<le> sqrt b \<longleftrightarrow> a\<^sup>2 \<le> b" by (subst a) (simp only: real_sqrt_le_iff)
  show "sqrt b < a \<longleftrightarrow> b < a\<^sup>2" by (subst a) (simp only: real_sqrt_less_iff)
  show "sqrt b \<le> a \<longleftrightarrow> b \<le> a\<^sup>2" by (subst a) (simp only: real_sqrt_le_iff)
qed

lemma angle_S: "get_line_angle (0, 0, 100, 0) = 0"
  by (simp add: get_line_angle_def arctan2_def degrees_simps py_fmod_180_nonneg)

lemma angle_B: "get_line_angle (0, 0, 50, 10) = degrees (arctan (1 / 5))"
  using degrees_fifth_bounds
  by (simp add: get_line_angle_def arctan2_def py_fmod_180_nonneg)

lemma angle_C: "get_line_angle (0, 10, 25, 5) = 180 - degrees (arctan (1 / 5))"
proof -
  have "degrees (arctan (- (1 / 5))) = - degrees (arctan (1 / 5))"
    by (simp add: arctan_minus degrees_def)
  then show ?thesis
    using degrees_fifth_bounds
    by (simp add: get_line_angle_def arctan2_def py_fmod_180_neg)
qed

lemma diff_S_B: "angle_diff (get_line_angle (0, 0, 100, 0)) (get_line_angle (0, 0, 50, 10)) < 15"
  using degrees_fifth_bounds by (simp add: angle_S angle_B angle_diff_def)

lemma diff_S_C: "angle_diff (get_line_angle (0, 0, 100, 0)) (get_line_angle (0, 10, 25, 5)) < 15"
  using degrees_fifth_bounds by (simp add: angle_S angle_C angle_diff_def)

lemma diff_B_C: "15 \<le> angle_diff (get_line_angle (0, 0, 50, 10)) (get_line_angle (0, 10, 25, 5))"
  using degrees_fifth_bounds by (simp add: angle_B angle_C angle_diff_def)

lemma sort_SBC:
  "sorted_longest_first [(0, 0, 50, 10), (0, 10, 25, 5), (0, 0, 100, 0)]
     = [(0, 0, 100, 0), (0, 0, 50, 10), (0, 10, 25, 5)]"
  by (simp add: sorted_longest_first_def get_line_length_def sqrt_cmp)

lemma clusters_SBC_direct:
  "line_clusters [(0, 0, 50, 10), (0, 10, 25, 5), (0, 0, 100, 0)] 15
     = [[(0, 0, 100, 0), (0, 0, 50, 10), (0, 10, 25, 5)]]"
  using diff_S_B diff_S_C
  by (simp add: line_clusters_def sort_SBC)

lemma merge_SBC:
  "merge_similar_lines [(0, 0, 50, 10), (0, 10, 25, 5), (0, 0, 100, 0)] 15 = Inr [(0, 0, 100, 0)]"
  using diff_S_B diff_S_C
  by (simp add: merge_similar_lines_def sort_SBC py_max_def get_line_length_def sqrt_cmp)

text \<open>
  A right triangle inside a 200 x 200 frame: a horizontal, a vertical and a diagonal
  segment, meeting at \<open>(64, 64)\<close>, \<open>(136, 64)\<close> and \<open>(64, 136)\<close>.
\<close>

lemma angle_D: "get_line_angle (36, 164, 164, 36) = 135"
proof -
  have "degrees (arctan (- 1)) = - 45"
    by (simp add: arctan_minus arctan_one degrees_def)
  then show ?thesis
    by (simp add: get_line_angle_def arctan2_def py_fmod_180_neg)
qed

lemma angle_H: "get_line_angle (36, 64, 164, 64) = 0"
  by (simp add: get_line_angle_def arctan2_def degrees_simps py_fmod_180_nonneg)

lemma angle_V: "get_line_angle (64, 36, 64, 100) = 90"
  by (simp add: get_line_angle_def arctan2_def degrees_simps py_fmod_180_nonneg)

lemma angle_H2: "get_line_angle (40, 80, 140, 80) = 0"
  by (simp add: get_line_angle_def arctan2_def degrees_simps py_fmod_180_nonneg)

lemma sort_HVD:
  "sorted_longest_first [(36, 64, 164, 64), (64, 36, 64, 100), (36, 164, 164, 36)]
     = [(36, 164, 164, 36), (36, 64, 164, 64), (64, 36, 64, 100)]"
  by (simp add: sorted_longest_first_def get_line_length_def sqrt_cmp)

lemma sort_DHV:
  "sorted_longest_first [(36, 164, 164, 36), (36, 64, 164, 64), (64, 36, 64, 100)]
     = [(36, 164, 164, 36), (36, 64, 164, 64), (64, 36, 64, 100)]"
  by (simp add: sorted_longest_first_def get_line_length_def sqrt_cmp)

lemma merge_DHV:
  "merge_similar_lines [(36, 164, 164, 36), (36, 64, 164, 64), (64, 36, 64, 100)] 15
     = Inr [(36, 164, 164, 36), (36, 64, 164, 64), (64, 36, 64, 100)]"
  by (simp add: merge_similar_lines_def sort_DHV py_max_def angle_D angle_H angle_V angle_diff_def)

lemma centroid_DHV:
  "line_centroid [(36, 164, 164, 36), (36, 64, 164, 64), (64, 36, 64, 100)] = Inr (88, 232 / 3)"
  by (simp add: line_centroid_def)

lemma inter_DH: "find_line_intersection (36, 164, 164, 36) (36, 64, 164, 64) = Some (136, 64)"
  by (simp add: find_line_intersection_def py_int_def)

lemma inter_DV: "find_line_intersection (36, 164, 164, 36) (64, 36, 64, 100) = Some (64, 136)"
  by (simp add: find_line_intersection_def py_int_def)

lemma inter_HV: "find_line_intersection (36, 64, 164, 64) (64, 36, 64, 100) = Some (64, 64)"
  by (simp add: find_line_intersection_def py_int_def)

lemma collect_DHV:
  "collect_vertices 20 200 200 (88, 232 / 3)
     (combinations2 [(36, 164, 164, 36), (36, 64, 164, 64), (64, 36, 64, 100)])
   = [((136, 64), sqrt (22336 / 9)), ((64, 136), sqrt (36160 / 9)), ((64, 64), sqrt (6784 / 9))]"
  by (simp add: inter_DH inter_DV inter_HV power2_eq_square)

lemma rank_DHV:
  "sort_by_distance [((136, 64), sqrt (22336 / 9)), ((64, 136), sqrt (36160 / 9)), ((64, 64), sqrt (6784 / 9))]
    = [((64, 64), sqrt (6784 / 9)), ((136, 64), sqrt (22336 / 9)), ((64, 136), sqrt (36160 / 9))]"
  by (simp add: sort_by_distance_def)

lemma dedup_DHV:
  "remove_duplicates 6 [((64, 64), d1), ((136, 64), d2), ((64, 136), d3)] []
    = [(64, 64), (136, 64), (64, 136)]"
  by (simp add: is_dup_def)

lemma ftv_HVD:
  "find_triangle_vertices [(36, 64, 164, 64), (64, 36, 64, 100), (36, 164, 164, 36)] (200, 200)
     = Inr [(64, 64), (136, 64), (64, 136)]"
proof -
  have bm: "py_int (real_of_int (min 200 200) * (5 / 100)) = 10"
    by (simp add: py_int_def)
  have tol: "py_int (real_of_int (min 200 200) * (3 / 100)) = 6"
    by (simp add: py_int_def)
  have flt: "filter_border_lines 10 200 200 [(36, 64, 164, 64), (64, 36, 64, 100), (36, 164, 164, 36)]
      = [(36, 64, 164, 64), (64, 36, 64, 100), (36, 164, 164, 36)]"
    by (simp add: filter_border_lines_def near_border_def)
  have tk: "take n [(36, 164, 164, 36), (36, 64, 164, 64), (64, 36, 64, 100 :: real)]
      = [(36, 164, 164, 36), (36, 64, 164, 64), (64, 36, 64, 100)]" if "3 \<le> n" for n
    using that by simp
  have len: "\<not> length [(36, 164, 164, 36), (36, 64, 164, 64), (64, 36, 64, 100 :: real)] < 3"
    by simp
  have mg: "(10 :: int) * 2 = 20" by simp
  have tk3: "take 3 [(64, 64), (136, 64), (64, 136 :: int)] = [(64 :: int, 64), (136, 64), (64, 136)]"
    by simp
  show ?thesis
    by (simp only: find_triangle_vertices_def prod.case Let_def bm tol flt sort_HVD tk[of 50]
        tk[of 6] tk[of 10] merge_DHV sum.case len if_False centroid_DHV mg collect_DHV rank_DHV
        dedup_DHV tk3)
qed

lemma candidates_tied_HVD:
  "candidate_vertices_by (\<lambda>centroid v. 0)
     [(36, 64, 164, 64), (64, 36, 64, 100), (36, 164, 164, 36)] (200, 200)
   = [((136, 64), 0), ((64, 136), 0), ((64, 64), 0)]"
proof -
  have bm: "py_int (real_of_int (min 200 200) * (5 / 100)) = 10"
    by (simp add: py_int_def)
  have flt: "filter_border_lines 10 200 200 [(36, 64, 164, 64), (64, 36, 64, 100), (36, 164, 164, 36)]
      = [(36, 64, 164, 64), (64, 36, 64, 100), (36, 164, 164, 36)]"
    by (simp add: filter_border_lines_def near_border_def)
  have tk: "take n [(36, 164, 164, 36), (36, 64, 164, 64), (64, 36, 64, 100 :: real)]
      = [(36, 164, 164, 36), (36, 64, 164, 64), (64, 36, 64, 100)]" if "3 \<le> n" for n
    using that by simp
  have len: "\<not> length [(36, 164, 164, 36), (36, 64, 164, 64), (64, 36, 64, 100 :: real)] < 3"
    by simp
  have mg: "(10 :: int) * 2 = 20" by simp
  have col: "collect_vertices_by (\<lambda>centroid v. 0) 20 200 200 (88, 232 / 3)
       (combinations2 [(36, 164, 164, 36), (36, 64, 164, 64), (64, 36, 64, 100)])
     = [((136, 64), 0), ((64, 136), 0), ((64, 64), 0)]"
    by (simp add: inter_DH inter_DV inter_HV)
  show ?thesis
    by (simp only: candidate_vertices_by_def prod.case Let_def bm flt sort_HVD tk[of 50]
        tk[of 10] merge_DHV sum.case len if_False centroid_DHV mg col)
qed

lemma merged_HVH2:
  "merged_lines_of [(36, 64, 164, 64), (64, 36, 64, 100), (40, 80, 140, 80)] (200, 200)
     = Inr [(36, 64, 164, 64), (64, 36, 64, 100)]"
proof -
  have srt: "sorted_longest_first [(36, 64, 164, 64), (64, 36, 64, 100), (40, 80, 140, 80)]
      = [(36, 64, 164, 64), (40, 80, 140, 80), (64, 36, 64, 100)]"
    by (simp add: sorted_longest_first_def get_line_length_def sqrt_cmp)
  have srt2: "sorted_longest_first [(36, 64, 164, 64), (40, 80, 140, 80), (64, 36, 64, 100)]
      = [(36, 64, 164, 64), (40, 80, 140, 80), (64, 36, 64, 100)]"
    by (simp add: sorted_longest_first_def get_line_length_def sqrt_cmp)
  have mrg: "merge_similar_lines [(36, 64, 164, 64), (40, 80, 140, 80), (64, 36, 64, 100)] 15
      = Inr [(36, 64, 164, 64), (64, 36, 64, 100)]"
    by (simp add: merge_similar_lines_def srt2 py_max_def angle_H angle_H2 angle_V angle_diff_def
        get_line_length_def sqrt_cmp)
  have bm: "py_int (real_of_int (min 200 200) * (5 / 100)) = 10"
    by (simp add: py_int_def)
  have flt: "filter_border_lines 10 200 200 [(36, 64, 164, 64), (64, 36, 64, 100), (40, 80, 140, 80)]
      = [(36, 64, 164, 64), (64, 36, 64, 100), (40, 80, 140, 80)]"
    by (simp add: filter_border_lines_def near_border_def)
  have tk: "take 50 [(36, 64, 164, 64), (40, 80, 140, 80), (64, 36, 64, 100 :: real)]
      = [(36, 64, 164, 64), (40, 80, 140, 80), (64, 36, 64, 100)]"
    by simp
  show ?thesis
    by (simp only: merged_lines_of_def prod.case Let_def bm flt srt tk mrg)
qed

lemma ftv_border_triangle:
  "find_triangle_vertices [(0, 0, 100, 0), (100, 0, 0, 100), (0, 100, 0, 0)] (120, 120) = Inr []"
  by (simp add: find_triangle_vertices_def py_int_def Let_def filter_border_lines_def
      near_border_def sorted_longest_first_def merge_similar_lines_def)

section \<open>Properties of the specification\<close>

text \<open>
  C1, as stated: for the segments \<open>(0,0,100,0)\<close>, \<open>(100,0,0,100)\<close>, \<open>(0,100,0,0)\<close> in a
  120 x 120 frame, \<^verbatim>\<open>find_triangle_vertices\<close> returns exactly 3 vertices. It does not: no
  list of length 3 is returned.
\<close>

theorem C1_counterexample:
  "\<not> (\<exists>vs. find_triangle_vertices [(0, 0, 100, 0), (100, 0, 0, 100), (0, 100, 0, 0)] (120, 120) = Inr vs
         \<and> length vs = 3)"
  by (simp add: ftv_border_triangle)

text \<open>
  C1, amended: the border margin of a 120 x 120 frame is 6, every endpoint of the three
  segments has a coordinate 0 below that margin, so the border filter removes all three
  and \<^verbatim>\<open>find_triangle_vertices\<close> returns the empty list. A right triangle whose segments
  lie inside the frame, here in a 200 x 200 frame, does yield exactly its three corners.
\<close>

theorem C1_border_triangle_is_filtered:
  "py_int (real_of_int (min 120 120) * (5 / 100)) = 6
   \<and> filter_border_lines 6 120 120 [(0, 0, 100, 0), (100, 0, 0, 100), (0, 100, 0, 0)] = []
   \<and> find_triangle_vertices [(0, 0, 100, 0), (100, 0, 0, 100), (0, 100, 0, 0)] (120, 120) = Inr []
   \<and> find_triangle_vertices [(36, 64, 164, 64), (64, 36, 64, 100), (36, 164, 164, 36)] (200, 200)
       = Inr [(64, 64), (136, 64), (64, 136)]"
  by (simp add: ftv_border_triangle ftv_HVD py_int_def filter_border_lines_def near_border_def)

text \<open>
  C2, as stated: no two segments at angular distance at least the threshold are placed in
  the same cluster. With the default threshold 15, the segments of slope \<open>1/5\<close> and
  \<open>-1/5\<close> both join the cluster of the horizontal seed, although they are more than 15
  degrees apart from each other.
\<close>

theorem C2_counterexample:
  "line_clusters [(0, 0, 50, 10), (0, 10, 25, 5), (0, 0, 100, 0)] 15
     = [[(0, 0, 100, 0), (0, 0, 50, 10), (0, 10, 25, 5)]]
   \<and> 15 \<le> angle_diff (get_line_angle (0, 0, 50, 10)) (get_line_angle (0, 10, 25, 5))
   \<and> merge_similar_lines [(0, 0, 50, 10), (0, 10, 25, 5), (0, 0, 100, 0)] 15 = Inr [(0, 0, 100, 0)]"
  by (simp add: clusters_SBC_direct diff_B_C merge_SBC)

text \<open>
  C2, amended: for every list of segments and every threshold, \<^verbatim>\<open>merge_similar_lines\<close>
  returns a list no longer than its input, and every segment added to a cluster has
  angular distance to the seed of that cluster (its first member) strictly below the
  threshold.
\<close>

theorem C2_merge_never_longer_members_near_seed:
  "\<exists>merged. merge_similar_lines lines angle_thresh = Inr merged
     \<and> length merged \<le> length lines
     \<and> (\<forall>grp \<in> set (line_clusters lines angle_thresh). grp \<noteq> []
          \<and> (\<forall>other \<in> set (tl grp).
                angle_diff (get_line_angle (hd grp)) (get_line_angle other) < angle_thresh))"
proof -
  have "length (map hd (greedy_groups angle_thresh (sorted_longest_first lines))) \<le> length lines"
    using length_greedy_groups[of angle_thresh "sorted_longest_first lines"]
    by (simp add: sorted_longest_first_def)
  moreover have "grp \<noteq> [] \<and> (\<forall>other \<in> set (tl grp).
      angle_diff (get_line_angle (hd grp)) (get_line_angle other) < angle_thresh)"
    if "grp \<in> set (line_clusters lines angle_thresh)" for grp
    using greedy_groups_member[of grp angle_thresh "sorted_longest_first lines"] that
    by (simp add: line_clusters_greedy similar_def)
  ultimately show ?thesis
    by (simp add: merge_similar_lines_greedy)
qed

theorem C2_merge_never_longer_members_near_seed_witness:
  "(\<exists>merged. merge_similar_lines [(0, 0, 50, 10), (0, 10, 25, 5), (0, 0, 100, 0)] 15 = Inr merged
      \<and> length merged \<le> 3)
   \<and> angle_diff (get_line_angle (0, 0, 100, 0)) (get_line_angle (0, 0, 50, 10)) < 15
   \<and> angle_diff (get_line_angle (0, 0, 100, 0)) (get_line_angle (0, 10, 25, 5)) < 15"
  using C2_merge_never_longer_members_near_seed
    [of "[(0, 0, 50, 10), (0, 10, 25, 5), (0, 0, 100, 0)]" 15]
  by (auto simp: clusters_SBC_direct numeral_3_eq_3)

text \<open>
  C3: any two vertices at distinct positions of the list returned by
  \<^verbatim>\<open>find_triangle_vertices\<close> fail the per-axis test: not both coordinate differences are
  below the tolerance. The tolerance is \<open>floor (0.03 * min height width)\<close>, which for
  non-negative dimensions is the \<^verbatim>\<open>int(min(height, width) * 0.03)\<close> of the code; the
  statement holds for either reading.
\<close>

theorem C3_vertices_pairwise_apart:
  assumes "tol = \<lfloor>3 / 100 * real_of_int (min height width)\<rfloor>
           \<or> tol = py_int (real_of_int (min height width) * (3 / 100))"
  shows "\<exists>vs. find_triangle_vertices lines (height, width) = Inr vs
     \<and> (\<forall>i < length vs. \<forall>j < length vs. i \<noteq> j \<longrightarrow>
          \<not> (\<bar>fst (vs ! i) - fst (vs ! j)\<bar> < tol \<and> \<bar>snd (vs ! i) - snd (vs ! j)\<bar> < tol))"
proof -
  let ?t = "py_int (real_of_int (min height width) * (3 / 100))"
  have tol: "tol \<le> ?t"
    using assms floor_le_py_int[of "real_of_int (min height width) * (3 / 100)"]
    by (auto simp: mult.commute)
  have srt: "sorted_wrt (apart ?t) (take 3 (remove_duplicates ?t vertices []))" for vertices
    by (rule sorted_wrt_take, rule remove_duplicates_apart) simp
  obtain vs where vs: "find_triangle_vertices lines (height, width) = Inr vs"
    and s: "sorted_wrt (apart ?t) vs"
    using find_triangle_vertices_shape[of lines height width] srt by auto
  have "\<not> (\<bar>fst (vs ! i) - fst (vs ! j)\<bar> < tol \<and> \<bar>snd (vs ! i) - snd (vs ! j)\<bar> < tol)"
    if "i < length vs" "j < length vs" "i \<noteq> j" for i j
    using apart_mono[OF tol sorted_wrt_apart_nth[OF s that]] by (simp add: apart_def)
  then show ?thesis using vs by simp
qed

theorem C3_vertices_pairwise_apart_witness:
  "(6 = \<lfloor>3 / 100 * real_of_int (min 200 200)\<rfloor> \<or> 6 = py_int (real_of_int (min 200 200) * (3 / 100)))
   \<and> find_triangle_vertices [(36, 64, 164, 64), (64, 36, 64, 100), (36, 164, 164, 36)] (200, 200)
       = Inr [(64, 64), (136, 64), (64, 136)]
   \<and> \<not> (\<bar>(64::int) - 136\<bar> < 6 \<and> \<bar>(64::int) - 64\<bar> < 6)"
proof -
  have h: "6 = \<lfloor>3 / 100 * real_of_int (min 200 200)\<rfloor> \<or> 6 = py_int (real_of_int (min 200 200) * (3 / 100))"
    by simp
  obtain vs where vs: "find_triangle_vertices
        [(36, 64, 164, 64), (64, 36, 64, 100), (36, 164, 164, 36)] (200, 200) = Inr vs"
    and ap: "\<forall>i < length vs. \<forall>j < length vs. i \<noteq> j \<longrightarrow>
          \<not> (\<bar>fst (vs ! i) - fst (vs ! j)\<bar> < 6 \<and> \<bar>snd (vs ! i) - snd (vs ! j)\<bar> < 6)"
    using C3_vertices_pairwise_apart[OF h, of "[(36, 64, 164, 64), (64, 36, 64, 100), (36, 164, 164, 36)]"]
    by blast
  from vs have eq: "vs = [(64, 64), (136, 64), (64, 136)]" by (simp add: ftv_HVD)
  have "\<not> (\<bar>fst (vs ! 0) - fst (vs ! 1)\<bar> < 6 \<and> \<bar>snd (vs ! 0) - snd (vs ! 1)\<bar> < 6)"
    using ap eq by simp
  then show ?thesis using h vs eq by simp
qed

text \<open>
  C4: for every list of lines and every image shape \<^verbatim>\<open>find_triangle_vertices\<close> returns
  (it raises nothing) a list of at most 3 vertices.
\<close>

theorem C4_at_most_three_vertices:
  "\<exists>vs. find_triangle_vertices lines img_shape = Inr vs \<and> length vs \<le> 3"
proof -
  obtain height width where s: "img_shape = (height, width)" by (cases img_shape)
  show ?thesis using find_triangle_vertices_shape[of lines height width] s by auto
qed

text \<open>
  C5: when fewer than 3 merged lines remain after border filtering and merging,
  \<^verbatim>\<open>find_triangle_vertices\<close> returns the empty list; so it does for no input line and
  for a single input segment.
\<close>

theorem C5_fewer_than_three_merged_lines:
  "(\<forall>merged. merged_lines_of lines img_shape = Inr merged \<and> length merged < 3
       \<longrightarrow> find_triangle_vertices lines img_shape = Inr [])
   \<and> find_triangle_vertices [] img_shape = Inr []
   \<and> find_triangle_vertices [line] img_shape = Inr []"
proof (intro conjI allI impI)
  fix merged
  assume "merged_lines_of lines img_shape = Inr merged \<and> length merged < 3"
  then show "find_triangle_vertices lines img_shape = Inr []"
    using find_triangle_vertices_few by blast
next
  obtain merged where m: "merged_lines_of [] img_shape = Inr merged"
    using merged_lines_of_total by blast
  then have "length merged \<le> 0"
    using length_merge[of _ 15 merged]
    by (cases img_shape) (simp add: merged_lines_of_def Let_def filter_border_lines_def sorted_longest_first_def merge_similar_lines_def)
  then show "find_triangle_vertices [] img_shape = Inr []"
    using find_triangle_vertices_few[OF m] by simp
next
  obtain height width where s: "img_shape = (height, width)" by (cases img_shape)
  obtain merged where m: "merged_lines_of [line] img_shape = Inr merged"
    using merged_lines_of_total by blast
  let ?ls = "take 50 (sorted_longest_first (filter_border_lines
      (py_int (real_of_int (min height width) * (5 / 100))) height width [line]))"
  have "merge_similar_lines ?ls 15 = Inr merged"
    using m s by (simp add: merged_lines_of_def Let_def)
  then have "length merged \<le> length ?ls" by (rule length_merge)
  also have "\<dots> \<le> 1"
    by (simp add: sorted_longest_first_def filter_border_lines_def)
  finally show "find_triangle_vertices [line] img_shape = Inr []"
    using find_triangle_vertices_few[OF m] by simp
qed

theorem C5_fewer_than_three_merged_lines_witness:
  "merged_lines_of [(36, 64, 164, 64), (64, 36, 64, 100), (40, 80, 140, 80)] (200, 200)
     = Inr [(36, 64, 164, 64), (64, 36, 64, 100)]
   \<and> length [(36, 64, 164, 64), (64, 36, 64, 100 :: real)] < 3
   \<and> find_triangle_vertices [(36, 64, 164, 64), (64, 36, 64, 100), (40, 80, 140, 80)] (200, 200)
       = Inr []"
  using C5_fewer_than_three_merged_lines
    [of "[(36, 64, 164, 64), (64, 36, 64, 100), (40, 80, 140, 80)]" "(200, 200)"]
  by (simp add: merged_HVH2)

text \<open>
  C6: \<^verbatim>\<open>find_line_intersection\<close> returns \<^verbatim>\<open>None\<close> exactly when the absolute value of
  \<open>denom = (x1-x2)(y3-y4) - (y1-y2)(x3-x4)\<close> is below \<open>1e-10\<close>; the parallel segments
  \<open>(0,0,10,0)\<close> and \<open>(0,5,10,5)\<close> give \<^verbatim>\<open>None\<close>.
\<close>

theorem C6_no_intersection_iff_small_denominator:
  "(find_line_intersection (x1, y1, x2, y2) (x3, y3, x4, y4) = None
      \<longleftrightarrow> \<bar>(x1 - x2) * (y3 - y4) - (y1 - y2) * (x3 - x4)\<bar> < 1 / 10 ^ 10)
   \<and> find_line_intersection (0, 0, 10, 0) (0, 5, 10, 5) = None"
  by (simp add: find_line_intersection_def Let_def)

text \<open>
  C7: for the perpendicular segments \<open>(0,50,100,50)\<close> and \<open>(50,0,50,100)\<close>,
  \<^verbatim>\<open>find_line_intersection\<close> returns exactly the point \<open>(50, 50)\<close>.
\<close>

theorem C7_perpendicular_crossing:
  "find_line_intersection (0, 50, 100, 50) (50, 0, 50, 100) = Some (50, 50)"
  by (simp add: find_line_intersection_def py_int_def)

text \<open>
  C8: the border filter is idempotent: filtering its own output changes nothing, for
  every margin (in particular the margin computed from the image shape), every shape
  and every list of segments.
\<close>

theorem C8_border_filter_idempotent:
  "filter_border_lines border_margin height width
     (filter_border_lines border_margin height width lines)
   = filter_border_lines border_margin height width lines"
  by (simp add: filter_border_lines_def)

text \<open>
  C9: \<^verbatim>\<open>find_triangle_vertices\<close> is a function of the line list and the image shape
  alone, and the theorem gives its value. For whatever value \<open>distance centroid v\<close> the
  code computes as the distance of a vertex to the centroid (\<^verbatim>\<open>find_triangle_vertices\<close>
  itself being the case of the exact distance): the result is the first three vertices
  left by the duplicate removal run over the ranked candidates, and it keeps their
  ranked order; the ranked candidates are in ascending order of the computed distance;
  candidates with equal computed distance keep the order in which their pairs were
  enumerated; the key of each candidate is the distance computed for its point; and the
  pairs are enumerated as by \<^verbatim>\<open>itertools.combinations\<close>, positions \<open>i < j\<close> in
  lexicographic order.
\<close>

theorem C9_result_determined_ranking_stable:
  "find_triangle_vertices lines (height, width)
     = find_triangle_vertices_by exact_distance lines (height, width)
   \<and> find_triangle_vertices_by distance lines (height, width)
       = Inr (take 3 (remove_duplicates (py_int (real_of_int (min height width) * (3 / 100)))
                (sort_by_distance (candidate_vertices_by distance lines (height, width))) []))
   \<and> subseq (take 3 (remove_duplicates (py_int (real_of_int (min height width) * (3 / 100)))
                (sort_by_distance (candidate_vertices_by distance lines (height, width))) []))
        (map fst (sort_by_distance (candidate_vertices_by distance lines (height, width))))
   \<and> sorted (map snd (sort_by_distance (candidate_vertices_by distance lines (height, width))))
   \<and> (\<forall>d. filter (\<lambda>v. snd v = d)
              (sort_by_distance (candidate_vertices_by distance lines (height, width)))
            = filter (\<lambda>v. snd v = d) (candidate_vertices_by distance lines (height, width)))
   \<and> (\<forall>v \<in> set (candidate_vertices_by distance lines (height, width)).
         \<exists>merged centroid. merged_lines_of lines (height, width) = Inr merged
           \<and> line_centroid merged = Inr centroid \<and> snd v = distance centroid (fst v))
   \<and> combinations2 xs
       = concat (map (\<lambda>i. map (\<lambda>j. (xs ! i, xs ! j)) [Suc i..<length xs]) [0..<length xs])"
proof (intro conjI allI ballI)
  show "find_triangle_vertices lines (height, width)
     = find_triangle_vertices_by exact_distance lines (height, width)"
    by (simp only: find_triangle_vertices_by_exact)
next
  show "find_triangle_vertices_by distance lines (height, width)
       = Inr (take 3 (remove_duplicates (py_int (real_of_int (min height width) * (3 / 100)))
                (sort_by_distance (candidate_vertices_by distance lines (height, width))) []))"
    by (rule find_triangle_vertices_by_value)
next
  let ?t = "py_int (real_of_int (min height width) * (3 / 100))"
  let ?r = "sort_by_distance (candidate_vertices_by distance lines (height, width))"
  have "subseq (take 3 (remove_duplicates ?t ?r [])) (remove_duplicates ?t ?r [])"
    by (rule prefix_imp_subseq) (rule take_is_prefix)
  moreover have "subseq (remove_duplicates ?t ?r []) (map fst ?r)"
    using remove_duplicates_subseq[of ?t ?r "[]"] by simp
  ultimately show "subseq (take 3 (remove_duplicates ?t ?r [])) (map fst ?r)"
    by (rule subseq_order.order_trans)
next
  show "sorted (map snd (sort_by_distance (candidate_vertices_by distance lines (height, width))))"
    by (simp add: sort_by_distance_def)
next
  fix d
  show "filter (\<lambda>v. snd v = d)
              (sort_by_distance (candidate_vertices_by distance lines (height, width)))
            = filter (\<lambda>v. snd v = d) (candidate_vertices_by distance lines (height, width))"
    by (simp add: sort_by_distance_def sort_key_stable)
next
  fix v
  assume "v \<in> set (candidate_vertices_by distance lines (height, width))"
  then show "\<exists>merged centroid. merged_lines_of lines (height, width) = Inr merged
           \<and> line_centroid merged = Inr centroid \<and> snd v = distance centroid (fst v)"
    by (rule candidate_vertices_by_key)
next
  show "combinations2 xs
       = concat (map (\<lambda>i. map (\<lambda>j. (xs ! i, xs ! j)) [Suc i..<length xs]) [0..<length xs])"
    by (rule combinations2_index_order)
qed

text \<open>
  On the triangle inside the 200 x 200 frame, a distance that ties all three candidates
  returns them in the order of their pairs, the exact distance returns them closest first.
\<close>

theorem C9_result_determined_ranking_stable_witness:
  "((136, 64), 0) \<in> set (candidate_vertices_by (\<lambda>centroid v. 0)
       [(36, 64, 164, 64), (64, 36, 64, 100), (36, 164, 164, 36)] (200, 200))
   \<and> sort_by_distance (candidate_vertices_by (\<lambda>centroid v. 0)
       [(36, 64, 164, 64), (64, 36, 64, 100), (36, 164, 164, 36)] (200, 200))
     = [((136, 64), 0), ((64, 136), 0), ((64, 64), 0)]
   \<and> find_triangle_vertices_by (\<lambda>centroid v. 0)
       [(36, 64, 164, 64), (64, 36, 64, 100), (36, 164, 164, 36)] (200, 200)
     = Inr [(136, 64), (64, 136), (64, 64)]
   \<and> find_triangle_vertices_by exact_distance
       [(36, 64, 164, 64), (64, 36, 64, 100), (36, 164, 164, 36)] (200, 200)
     = Inr [(64, 64), (136, 64), (64, 136)]"
proof -
  have srt: "sort_by_distance [((136, 64), 0), ((64, 136), 0), ((64, 64), 0 :: real)]
      = [((136 :: int, 64 :: int), 0), ((64, 136), 0), ((64, 64), 0)]"
    by (simp add: sort_by_distance_def)
  have tol: "py_int (real_of_int (min 200 200) * (3 / 100)) = 6"
    by (simp add: py_int_def)
  have dd: "take 3 (remove_duplicates 6 [((136, 64), 0), ((64, 136), 0), ((64, 64), 0)] [])
      = [(136, 64), (64, 136), (64, 64)]"
    by (simp add: is_dup_def)
  note inst = C9_result_determined_ranking_stable
    [of "[(36, 64, 164, 64), (64, 36, 64, 100), (36, 164, 164, 36)]" 200 200 "\<lambda>centroid v. 0" "[]"]
  have by0: "find_triangle_vertices_by (\<lambda>centroid v. 0)
       [(36, 64, 164, 64), (64, 36, 64, 100), (36, 164, 164, 36)] (200, 200)
     = Inr [(136, 64), (64, 136), (64, 64)]"
    using inst[THEN conjunct2, THEN conjunct1] by (simp only: candidates_tied_HVD srt tol dd)
  have ex: "find_triangle_vertices_by exact_distance
       [(36, 64, 164, 64), (64, 36, 64, 100), (36, 164, 164, 36)] (200, 200)
     = Inr [(64, 64), (136, 64), (64, 136)]"
    using inst[THEN conjunct1] by (simp only: ftv_HVD)
  show ?thesis
    using by0 ex by (simp add: candidates_tied_HVD srt)
qed

text \<open>
  C10: the segments returned by \<^verbatim>\<open>merge_similar_lines\<close> are the seeds (first members) of
  the clusters, and any two of them at distinct positions have angular distance at
  least the threshold.
\<close>

theorem C10_representatives_pairwise_apart:
  "\<exists>merged. merge_similar_lines lines angle_thresh = Inr merged
     \<and> merged = map hd (line_clusters lines angle_thresh)
     \<and> (\<forall>i < length merged. \<forall>j < length merged. i \<noteq> j \<longrightarrow>
          angle_thresh \<le> angle_diff (get_line_angle (merged ! i)) (get_line_angle (merged ! j)))"
proof -
  let ?m = "map hd (greedy_groups angle_thresh (sorted_longest_first lines))"
  have s: "sorted_wrt (\<lambda>a b. \<not> similar angle_thresh (get_line_angle a) b) ?m"
    by (rule greedy_groups_seeds_apart)
  have "angle_thresh \<le> angle_diff (get_line_angle (?m ! i)) (get_line_angle (?m ! j))"
    if "i < length ?m" "j < length ?m" "i \<noteq> j" for i j
  proof (cases "i < j")
    case True
    then have "\<not> similar angle_thresh (get_line_angle (?m ! i)) (?m ! j)"
      using s that by (simp add: sorted_wrt_iff_nth_less)
    then show ?thesis by (simp add: similar_def)
  next
    case False
    then have "j < i" using that by simp
    then have "\<not> similar angle_thresh (get_line_angle (?m ! j)) (?m ! i)"
      using s that by (simp add: sorted_wrt_iff_nth_less)
    then show ?thesis by (simp add: similar_def angle_diff_sym[of "get_line_angle (?m ! i)"])
  qed
  then show ?thesis
    by (simp add: merge_similar_lines_greedy line_clusters_greedy)
qed

theorem C10_representatives_pairwise_apart_witness:
  "merge_similar_lines [(36, 164, 164, 36), (36, 64, 164, 64), (64, 36, 64, 100)] 15
     = Inr [(36, 164, 164, 36), (36, 64, 164, 64), (64, 36, 64, 100)]
   \<and> 15 \<le> angle_diff (get_line_angle (36, 164, 164, 36)) (get_line_angle (36, 64, 164, 64))"
proof -
  obtain merged where m: "merge_similar_lines
        [(36, 164, 164, 36), (36, 64, 164, 64), (64, 36, 64, 100)] 15 = Inr merged"
    and ap: "\<forall>i < length merged. \<forall>j < length merged. i \<noteq> j \<longrightarrow>
          15 \<le> angle_diff (get_line_angle (merged ! i)) (get_line_angle (merged ! j))"
    using C10_representatives_pairwise_apart
      [of "[(36, 164, 164, 36), (36, 64, 164, 64), (64, 36, 64, 100)]" 15]
    by blast
  from m have eq: "merged = [(36, 164, 164, 36), (36, 64, 164, 64), (64, 36, 64, 100)]"
    by (simp add: merge_DHV)
  have "15 \<le> angle_diff (get_line_angle (merged ! 0)) (get_line_angle (merged ! 1))"
    by (rule ap[rule_format]) (simp_all add: eq)
  then show ?thesis using m eq by simp
qed

end
